theory Spec2Isabelle
  imports Main
begin

section \<open>Data model of anilist.js\<close>

text \<open>
  The bot keeps two global objects: \<open>anilistUsers\<close>, keyed by Discord id, holding
  \<open>{id, name}\<close> of the linked AniList account, and \<open>lastActivityId\<close>, keyed by
  AniList user name, holding the identifier of the last activity that was handled.

  A JavaScript object with string keys is modelled as an association list with distinct
  keys, in the enumeration order of \<open>Object.values\<close> and \<open>for ... in\<close> (insertion
  order: Discord ids are snowflakes, never array indices). An assignment \<open>o[k] = v\<close>
  replaces the value in place when the key is present and appends otherwise;
  \<open>delete o[k]\<close> removes the pair. The ledger is only ever read and written by key,
  so it is a finite map; keys inherited from \<open>Object.prototype\<close> are outside the model.
  Activity identifiers and AniList ids are GraphQL \<open>Int\<close>s, modelled as \<open>int\<close>.
\<close>

record account =
  uid :: int  \<comment> \<open>the field \<open>id\<close> of the source\<close>
  name :: string

type_synonym user_store = "(string \<times> account) list"
type_synonym ledger = "string \<rightharpoonup> int"

definition obj_get :: "(string \<times> 'v) list \<Rightarrow> string \<Rightarrow> 'v option" where
  "obj_get obj k = map_of obj k"

primrec obj_set :: "string \<Rightarrow> 'v \<Rightarrow> (string \<times> 'v) list \<Rightarrow> (string \<times> 'v) list" where
  "obj_set k v [] = [(k, v)]"
| "obj_set k v (p # ps) = (if fst p = k then (k, v) # ps else p # obj_set k v ps)"

definition obj_delete :: "string \<Rightarrow> (string \<times> 'v) list \<Rightarrow> (string \<times> 'v) list" where
  "obj_delete k obj = filter (\<lambda>p. fst p \<noteq> k) obj"

definition obj_values :: "(string \<times> 'v) list \<Rightarrow> 'v list" where
  "obj_values obj = map snd obj"

text \<open>
  \<open>users.json\<close> on disk. \<open>fs.existsSync\<close> may answer no (\<open>Absent\<close>);
  \<open>readFileSync\<close> or \<open>JSON.parse\<close> may throw (\<open>Unparsable\<close>); otherwise the
  document is an object whose values are classified the way \<open>loadUsers\<close> tests them:
  a string, an object (with its \<open>id\<close> and \<open>name\<close> fields, \<open>None\<close> when the field
  is missing or null), or anything else (null, number, boolean). As in the format of the
  document, an \<open>id\<close> that is present is an integer and a \<open>name\<close> that is present is
  a string; the entries are in the order of \<open>for ... in\<close>, and their keys are distinct
  (\<open>JSON.parse\<close> keeps one value per key).

  In \<open>bot_state\<close>, \<open>disk\<close> is the content of \<open>users.json\<close> and \<open>writes\<close> the
  documents written to it so far, oldest first.
\<close>

datatype raw_value =
    Bare string
  | Structured "int option" "string option"
  | Other

datatype users_file =
    Absent
  | Unparsable
  | Parsed "(string \<times> raw_value) list"

record bot_state =
  anilistUsers :: user_store
  lastActivityId :: ledger
  disk :: users_file
  writes :: "user_store list"

section \<open>The activity poller\<close>

record media =
  romaji :: string
  is_anime :: bool
  cover :: "string option"

record activity =
  act_id :: int
  status :: string
  progress :: int
  act_media :: "media option"
  siteUrl :: string
  createdAt :: int

text \<open>
  One request of \<open>ACTIVITY_QUERY\<close>: \<open>axios.post\<close> rejects (\<open>FetchError\<close>), or the
  page holds no activity node (\<open>NoActivity\<close>), or it holds one.
\<close>

datatype fetch_result = FetchError | NoActivity | Activity activity

text \<open>
  What one pass over a user does, in the order it does it: the write to the ledger, the
  call of \<open>channel.send\<close> with whether it resolved (the embed is rendered from the
  user name and the activity node; its text is not modelled), and the console lines.
\<close>

datatype event =
    LogNoUsers
  | LogNoChannel
  | LogNoActivity string
  | LogKnown string int
  | LedgerSet string int
  | Send string activity bool
  | LogPosted string
  | LogError string

text \<open>
  The test of line 198, \<open>lastActivityId[username] && lastActivityId[username] >= currentId\<close>:
  the first conjunct is JavaScript truthiness, so an absent entry and a stored 0 both
  make it false.
\<close>

definition already_known :: "ledger \<Rightarrow> string \<Rightarrow> int \<Rightarrow> bool" where
  "already_known led username currentId =
     (case led username of
        None \<Rightarrow> False
      | Some stored \<Rightarrow> stored \<noteq> 0 \<and> stored \<ge> currentId)"

text \<open>
  The body of the \<open>for\<close> loop of \<open>fetchAndPostActivity\<close> for one user, with its
  \<open>try\<close>/\<open>catch\<close>: every exception (the request, the rendering of a node without
  \<open>media\<close>, the send) ends in \<open>logAniListErrorDetails\<close> and the loop goes on.
  \<open>send\<close> tells whether \<open>channel.send\<close> resolves.
\<close>

definition poll_user ::
  "(int \<Rightarrow> fetch_result) \<Rightarrow> (string \<Rightarrow> activity \<Rightarrow> bool) \<Rightarrow> account
     \<Rightarrow> ledger \<times> event list \<Rightarrow> ledger \<times> event list" where
  "poll_user fetch send user acc =
     (let led = fst acc; evs = snd acc; userId = uid user; username = name user in
      case fetch userId of
        FetchError \<Rightarrow> (led, evs @ [LogError username])
      | NoActivity \<Rightarrow> (led, evs @ [LogNoActivity username])
      | Activity activityNode \<Rightarrow>
          (let currentId = act_id activityNode in
           if already_known led username currentId
           then (led, evs @ [LogKnown username currentId])
           else
             (let led' = led(username \<mapsto> currentId);
                  evs' = evs @ [LedgerSet username currentId] in
              case act_media activityNode of
                None \<Rightarrow> (led', evs' @ [LogError username])
              | Some m \<Rightarrow>
                  if send username activityNode
                  then (led', evs' @ [Send username activityNode True, LogPosted username])
                  else (led', evs' @ [Send username activityNode False, LogError username]))))"

definition fetchAndPostActivity ::
  "bool \<Rightarrow> (int \<Rightarrow> fetch_result) \<Rightarrow> (string \<Rightarrow> activity \<Rightarrow> bool) \<Rightarrow> bot_state
     \<Rightarrow> bot_state \<times> event list" where
  "fetchAndPostActivity channel fetch send st =
     (let userObjects = obj_values (anilistUsers st) in
      if userObjects = [] then (st, [LogNoUsers])
      else if \<not> channel then (st, [LogNoChannel])
      else
        (let r = fold (poll_user fetch send) userObjects (lastActivityId st, [])
         in (st\<lparr>lastActivityId := fst r\<rparr>, snd r)))"

text \<open>
  Successive cycles (the \<open>setInterval\<close> of \<open>clientReady\<close>): each cycle has its own
  answers of the remote service and of the channel. The result is the final state and
  the events of every cycle.
\<close>

fun run_cycles ::
  "bool \<Rightarrow> ((int \<Rightarrow> fetch_result) \<times> (string \<Rightarrow> activity \<Rightarrow> bool)) list \<Rightarrow> bot_state
     \<Rightarrow> bot_state \<times> event list list" where
  "run_cycles channel [] st = (st, [])"
| "run_cycles channel (c # cs) st =
     (let r = fetchAndPostActivity channel (fst c) (snd c) st;
          rest = run_cycles channel cs (fst r)
      in (fst rest, snd r # snd rest))"

text \<open>The identifiers of the notifications delivered to the channel for a user name.\<close>

definition delivered :: "string \<Rightarrow> event list \<Rightarrow> int list" where
  "delivered u evs =
     concat (map (\<lambda>e. case e of Send v a ok \<Rightarrow> (if v = u \<and> ok then [act_id a] else []) | _ \<Rightarrow> []) evs)"

definition sample_activity :: "int \<Rightarrow> activity" where
  "sample_activity i =
     \<lparr>act_id = i, status = ''CURRENT'', progress = 1,
      act_media = Some \<lparr>romaji = ''Title'', is_anime = True, cover = None\<rparr>,
      siteUrl = ''https://anilist.co/activity'', createdAt = 0\<rparr>"

text \<open>A cycle in which the service answers every user with activity \<open>i\<close> and the send succeeds.\<close>

definition feed :: "int \<Rightarrow> (int \<Rightarrow> fetch_result) \<times> (string \<Rightarrow> activity \<Rightarrow> bool)" where
  "feed i = (\<lambda>_. Activity (sample_activity i), \<lambda>_ _. True)"

text \<open>The same answer of the service in a cycle whose \<open>channel.send\<close> rejects.\<close>

definition feed_failing_send ::
  "int \<Rightarrow> (int \<Rightarrow> fetch_result) \<times> (string \<Rightarrow> activity \<Rightarrow> bool)" where
  "feed_failing_send i = (\<lambda>_. Activity (sample_activity i), \<lambda>_ _. False)"

definition one_user :: bot_state where
  "one_user =
     \<lparr>anilistUsers = [(''111111111111111111'', \<lparr>uid = 42, name = ''Alice''\<rparr>)],
      lastActivityId = Map.empty, disk = Absent, writes = []\<rparr>"

text \<open>The name of the user an event is about.\<close>

fun event_user :: "event \<Rightarrow> string option" where
  "event_user (LogNoActivity u) = Some u"
| "event_user (LogKnown u i) = Some u"
| "event_user (LedgerSet u i) = Some u"
| "event_user (Send u a ok) = Some u"
| "event_user (LogPosted u) = Some u"
| "event_user (LogError u) = Some u"
| "event_user e = None"

text \<open>A service that fails for one AniList id and answers every other with one activity.\<close>

definition failing_for :: "int \<Rightarrow> activity \<Rightarrow> int \<Rightarrow> fetch_result" where
  "failing_for bad a i = (if i = bad then FetchError else Activity a)"

definition two_users :: bot_state where
  "two_users =
     \<lparr>anilistUsers = [(''111111111111111111'', \<lparr>uid = 42, name = ''Alice''\<rparr>),
                      (''222222222222222222'', \<lparr>uid = 43, name = ''Bob''\<rparr>)],
      lastActivityId = Map.empty, disk = Absent, writes = []\<rparr>"

section \<open>The account store: saveUsers and loadUsers\<close>

text \<open>
  \<open>saveUsers\<close> writes the whole store with \<open>fs.writeFileSync\<close>, which may throw:
  \<open>write_ok\<close> tells whether the write goes through, and \<open>None\<close> is the exception.
  \<open>writes\<close> records every document written, in order.
\<close>

definition stored_form :: "string \<times> account \<Rightarrow> string \<times> raw_value" where
  "stored_form p = (fst p, Structured (Some (uid (snd p))) (Some (name (snd p))))"

definition saveUsers :: "bool \<Rightarrow> bot_state \<Rightarrow> bot_state option" where
  "saveUsers write_ok st =
     (if write_ok
      then Some (st\<lparr>disk := Parsed (map stored_form (anilistUsers st)),
                     writes := writes st @ [anilistUsers st]\<rparr>)
      else None)"

text \<open>
  One request of \<open>USER_ID_QUERY\<close>: the service returns a user, or \<open>User\<close> is null,
  or the request throws (a rejected \<open>axios.post\<close>, or a response without \<open>data.data\<close>).
  The service is taken to answer by name: the same name gets the same answer within one
  operation.
\<close>

datatype resolve_result = Resolved account | UserNull | ApiError

datatype load_event =
    LogConverting string
  | LogNotFound string
  | LogApiError string
  | LogSaving
  | LogLoaded nat
  | LogLoadError

record load_loop =
  convertedUsers :: user_store
  requiresSave :: bool
  load_log :: "load_event list"

text \<open>The body of the \<open>for ... in\<close> loop of \<open>loadUsers\<close> (lines 43 to 67).\<close>

definition convert_entry ::
  "(string \<Rightarrow> resolve_result) \<Rightarrow> string \<times> raw_value \<Rightarrow> load_loop \<Rightarrow> load_loop" where
  "convert_entry resolve entry l =
     (let discordId = fst entry in
      case snd entry of
        Bare v \<Rightarrow>
          (case resolve v of
             Resolved userData \<Rightarrow>
               l\<lparr>convertedUsers :=
                    obj_set discordId \<lparr>uid = uid userData, name = name userData\<rparr> (convertedUsers l),
                  requiresSave := True,
                  load_log := load_log l @ [LogConverting v]\<rparr>
           | UserNull \<Rightarrow> l\<lparr>load_log := load_log l @ [LogConverting v, LogNotFound v]\<rparr>
           | ApiError \<Rightarrow> l\<lparr>load_log := load_log l @ [LogConverting v, LogApiError v]\<rparr>)
      | Structured (Some i) (Some n) \<Rightarrow>
          (if i \<noteq> 0 \<and> n \<noteq> []
           then l\<lparr>convertedUsers := obj_set discordId \<lparr>uid = i, name = n\<rparr> (convertedUsers l)\<rparr>
           else l)
      | Structured _ _ \<Rightarrow> l
      | Other \<Rightarrow> l)"

text \<open>What one value of the document contributes to \<open>convertedUsers\<close>, if anything.\<close>

definition converted_value :: "(string \<Rightarrow> resolve_result) \<Rightarrow> raw_value \<Rightarrow> account option" where
  "converted_value resolve value =
     (case value of
        Bare v \<Rightarrow> (case resolve v of Resolved userData \<Rightarrow> Some userData | _ \<Rightarrow> None)
      | Structured (Some i) (Some n) \<Rightarrow>
          (if i \<noteq> 0 \<and> n \<noteq> [] then Some \<lparr>uid = i, name = n\<rparr> else None)
      | Structured _ _ \<Rightarrow> None
      | Other \<Rightarrow> None)"

text \<open>Whether a value is a bare name that the service resolves.\<close>

definition upgraded :: "(string \<Rightarrow> resolve_result) \<Rightarrow> raw_value \<Rightarrow> bool" where
  "upgraded resolve value =
     (case value of
        Bare v \<Rightarrow> (case resolve v of Resolved userData \<Rightarrow> True | _ \<Rightarrow> False)
      | _ \<Rightarrow> False)"

text \<open>
  A value that is neither a string nor an object with truthy \<open>id\<close> and \<open>name\<close>
  (a number is falsy when 0, a string when empty, a missing or null field always).
\<close>

definition malformed :: "raw_value \<Rightarrow> bool" where
  "malformed value =
     (case value of
        Bare v \<Rightarrow> False
      | Structured (Some i) (Some n) \<Rightarrow> i = 0 \<or> n = []
      | Structured _ _ \<Rightarrow> True
      | Other \<Rightarrow> True)"

text \<open>
  \<open>loadUsers\<close>: nothing happens when the file does not exist; an exception anywhere in
  the outer \<open>try\<close> (reading, parsing, or the \<open>saveUsers\<close> after a conversion) is logged
  and leaves the store empty.
\<close>

definition loadUsers ::
  "(string \<Rightarrow> resolve_result) \<Rightarrow> bool \<Rightarrow> bot_state \<Rightarrow> bot_state \<times> load_event list" where
  "loadUsers resolve write_ok st =
     (case disk st of
        Absent \<Rightarrow> (st, [])
      | Unparsable \<Rightarrow> (st\<lparr>anilistUsers := []\<rparr>, [LogLoadError])
      | Parsed rawUsers \<Rightarrow>
          (let l = fold (convert_entry resolve) rawUsers
                     \<lparr>convertedUsers = [], requiresSave = False, load_log = []\<rparr>;
               st1 = st\<lparr>anilistUsers := convertedUsers l\<rparr>
           in if requiresSave l
              then (case saveUsers write_ok st1 of
                      None \<Rightarrow> (st1\<lparr>anilistUsers := []\<rparr>, load_log l @ [LogSaving, LogLoadError])
                    | Some st2 \<Rightarrow>
                        (st2, load_log l @ [LogSaving, LogLoaded (length (anilistUsers st2))]))
              else (st1, load_log l @ [LogLoaded (length (anilistUsers st1))])))"

section \<open>The link and unlink commands\<close>

text \<open>
  \<open>String.prototype.toLowerCase\<close> on the ASCII letters; AniList names are ASCII, and a
  \<open>char\<close> is a byte, so other letters are left as they are.
\<close>

definition lower_char :: "char \<Rightarrow> char" where
  "lower_char c =
     (case map_of (zip ''ABCDEFGHIJKLMNOPQRSTUVWXYZ'' ''abcdefghijklmnopqrstuvwxyz'') c of
        Some l \<Rightarrow> l
      | None \<Rightarrow> c)"

definition toLowerCase :: "string \<Rightarrow> string" where
  "toLowerCase s = map lower_char s"

datatype reply =
    Usage
  | AlreadyLinked string
  | Linked string int
  | NotFound string
  | ApiErrorReply
  | Unlinked string
  | NotLinked
  | NoReply

text \<open>
  The \<open>find\<close> of lines 391 to 394. The caller's own lower-cased name is
  \<open>anilistUser?.name?.toLowerCase() ?? ''\<close>: the empty string when the caller has no link.
\<close>

definition own_name :: "bot_state \<Rightarrow> string \<Rightarrow> string" where
  "own_name st discordId =
     (case obj_get (anilistUsers st) discordId of
        None \<Rightarrow> []
      | Some anilistUser \<Rightarrow> toLowerCase (name anilistUser))"

definition existingUser :: "bot_state \<Rightarrow> string \<Rightarrow> string \<Rightarrow> account option" where
  "existingUser st discordId usernameToLink =
     find (\<lambda>user. toLowerCase (name user) = toLowerCase usernameToLink \<and>
                   toLowerCase (name user) \<noteq> own_name st discordId)
          (obj_values (anilistUsers st))"

text \<open>
  The link branch of the \<open>messageCreate\<close> handler, from the split of the message into
  \<open>parts\<close> on. The request and its \<open>then\<close>/\<open>catch\<close> are taken as one step; an
  exception of \<open>saveUsers\<close> inside \<open>then\<close> reaches the \<open>catch\<close>, after the store
  was changed in memory.
\<close>

definition link ::
  "(string \<Rightarrow> resolve_result) \<Rightarrow> bool \<Rightarrow> string \<Rightarrow> string list \<Rightarrow> bot_state
     \<Rightarrow> bot_state \<times> reply" where
  "link resolve write_ok discordId parts st =
     (if length parts \<noteq> 3 then (st, Usage)
      else
        (let usernameToLink = parts ! 2 in
         case existingUser st discordId usernameToLink of
           Some u \<Rightarrow> (st, AlreadyLinked usernameToLink)
         | None \<Rightarrow>
             (case resolve usernameToLink of
                Resolved userData \<Rightarrow>
                  (let st1 = st\<lparr>anilistUsers :=
                                   obj_set discordId \<lparr>uid = uid userData, name = name userData\<rparr>
                                     (anilistUsers st)\<rparr>
                   in case saveUsers write_ok st1 of
                        Some st2 \<Rightarrow> (st2, Linked (name userData) (uid userData))
                      | None \<Rightarrow> (st1, ApiErrorReply))
              | UserNull \<Rightarrow> (st, NotFound usernameToLink)
              | ApiError \<Rightarrow> (st, ApiErrorReply))))"

text \<open>
  The unlink branch (lines 426 to 436). When \<open>saveUsers\<close> throws, the two deletions
  have happened and no reply is sent.
\<close>

definition unlink :: "bool \<Rightarrow> string \<Rightarrow> bot_state \<Rightarrow> bot_state \<times> reply" where
  "unlink write_ok discordId st =
     (case obj_get (anilistUsers st) discordId of
        Some anilistUser \<Rightarrow>
          (let st1 = st\<lparr>lastActivityId := (lastActivityId st)(name anilistUser := None),
                         anilistUsers := obj_delete discordId (anilistUsers st)\<rparr>
           in case saveUsers write_ok st1 of
                Some st2 \<Rightarrow> (st2, Unlinked (name anilistUser))
              | None \<Rightarrow> (st1, NoReply))
      | None \<Rightarrow> (st, NotLinked))"

section \<open>The leaderboard of fetchAndPostTopStats\<close>

text \<open>
  The \<open>User\<close> of a statistics response, as \<open>STATS_QUERY\<close> asks for it. The objects
  \<open>statistics\<close>, \<open>statistics.anime\<close>, \<open>statistics.manga\<close> and \<open>avatar\<close> may be
  null (\<open>None\<close>); the counts inside are integers.
\<close>

record anime_statistics =
  anime_count :: int
  episodesWatched :: int

record manga_statistics =
  manga_count :: int
  chaptersRead :: int

record statistics =
  anime :: "anime_statistics option"
  manga :: "manga_statistics option"

record stats_user =
  su_name :: string
  su_statistics :: "statistics option"
  su_avatar :: "string option"

text \<open>
  One element of \<open>responses\<close>: \<open>null\<close> when the request failed (the \<open>catch\<close> of
  line 315), otherwise the \<open>User\<close> of the response, which may be null.
\<close>

datatype stats_response = StatsFailed | StatsUser "stats_user option"

datatype media_kind = AnimeKind | MangaKind

datatype js_error = TypeError

record stat =
  stat_name :: string
  count :: int
  episodesOrChapters :: int
  avatar :: string

text \<open>\<open>res?.data?.data?.User\<close>\<close>

definition response_user :: "stats_response \<Rightarrow> stats_user option" where
  "response_user res = (case res of StatsFailed \<Rightarrow> None | StatsUser u \<Rightarrow> u)"

text \<open>\<open>data && data.statistics\<close>\<close>

definition has_statistics :: "stats_user option \<Rightarrow> bool" where
  "has_statistics d = (case d of None \<Rightarrow> False | Some u \<Rightarrow> su_statistics u \<noteq> None)"

text \<open>
  The callback of the second \<open>map\<close> (lines 326 to 331). It reads \<open>data.name\<close>,
  \<open>data.statistics.anime.count\<close> or \<open>data.statistics.manga.count\<close> according to
  \<open>type === 'anime'\<close>, the matching progress total, and \<open>data.avatar.large\<close>; reading
  a property of null throws a TypeError.
\<close>

definition to_stat :: "media_kind \<Rightarrow> stats_user option \<Rightarrow> js_error + stat" where
  "to_stat kind data =
     (case data of
        None \<Rightarrow> Inl TypeError
      | Some u \<Rightarrow>
          (case su_statistics u of
             None \<Rightarrow> Inl TypeError
           | Some s \<Rightarrow>
               (if kind = AnimeKind
                then (case anime s of
                        None \<Rightarrow> Inl TypeError
                      | Some a \<Rightarrow>
                          (case su_avatar u of
                             None \<Rightarrow> Inl TypeError
                           | Some large \<Rightarrow>
                               Inr \<lparr>stat_name = su_name u, count = anime_count a,
                                    episodesOrChapters = episodesWatched a, avatar = large\<rparr>))
                else (case manga s of
                        None \<Rightarrow> Inl TypeError
                      | Some m \<Rightarrow>
                          (case su_avatar u of
                             None \<Rightarrow> Inl TypeError
                           | Some large \<Rightarrow>
                               Inr \<lparr>stat_name = su_name u, count = manga_count m,
                                    episodesOrChapters = chaptersRead m, avatar = large\<rparr>)))))"

text \<open>\<open>Array.prototype.map\<close> with that callback: one result per element, in order; the
  first exception ends the whole expression.\<close>

fun map_stats :: "media_kind \<Rightarrow> stats_user option list \<Rightarrow> js_error + stat list" where
  "map_stats kind [] = Inr []"
| "map_stats kind (d # ds) =
     (case to_stat kind d of
        Inl e \<Rightarrow> Inl e
      | Inr s \<Rightarrow> (case map_stats kind ds of Inl e \<Rightarrow> Inl e | Inr ss \<Rightarrow> Inr (s # ss)))"

text \<open>
  \<open>Array.prototype.sort\<close> with a comparator is a stable sort (ECMAScript 2019): an
  insertion sort that puts an element before the first one it does not compare greater
  than. The comparator of line 332 is \<open>(a, b) => b.count - a.count\<close>.
\<close>

fun insert_by :: "('a \<Rightarrow> 'a \<Rightarrow> int) \<Rightarrow> 'a \<Rightarrow> 'a list \<Rightarrow> 'a list" where
  "insert_by cmp x [] = [x]"
| "insert_by cmp x (y # ys) = (if cmp x y \<le> 0 then x # y # ys else y # insert_by cmp x ys)"

definition sort_by :: "('a \<Rightarrow> 'a \<Rightarrow> int) \<Rightarrow> 'a list \<Rightarrow> 'a list" where
  "sort_by cmp xs = foldr (insert_by cmp) xs []"

definition by_count_desc :: "stat \<Rightarrow> stat \<Rightarrow> int" where
  "by_count_desc a b = count b - count a"

text \<open>The chain of lines 323 to 333: \<open>unsorted\<close> up to the second \<open>map\<close>, then the
  \<open>sort\<close> and the \<open>slice(0, 10)\<close>. An exception of the callback leaves
  \<open>fetchAndPostTopStats\<close>.\<close>

definition unsorted :: "media_kind \<Rightarrow> stats_response list \<Rightarrow> js_error + stat list" where
  "unsorted kind responses =
     map_stats kind (filter has_statistics (map response_user responses))"

definition validStats :: "media_kind \<Rightarrow> stats_response list \<Rightarrow> js_error + stat list" where
  "validStats kind responses =
     (case unsorted kind responses of
        Inl e \<Rightarrow> Inl e
      | Inr stats \<Rightarrow> Inr (take 10 (sort_by by_count_desc stats)))"







text \<open>
  A user whose response can be rendered for a kind: the statistics of that kind and the
  avatar are not null.
\<close>

definition complete_for :: "media_kind \<Rightarrow> stats_user \<Rightarrow> bool" where
  "complete_for kind u =
     (su_avatar u \<noteq> None \<and>
      (case su_statistics u of
         None \<Rightarrow> False
       | Some s \<Rightarrow> (if kind = AnimeKind then anime s \<noteq> None else manga s \<noteq> None)))"

text \<open>A service that knows Carol, with id 99, under any casing of the name.\<close>

definition knows_carol :: "string \<Rightarrow> resolve_result" where
  "knows_carol n =
     (if toLowerCase n = ''carol'' then Resolved \<lparr>uid = 99, name = ''Carol''\<rparr> else UserNull)"

definition legacy_doc :: bot_state where
  "legacy_doc =
     \<lparr>anilistUsers = [], lastActivityId = Map.empty,
      disk = Parsed [(''u1'', Bare ''Alice''), (''u2'', Bare ''Ghost''), (''u3'', Other),
                     (''u4'', Structured (Some 7) (Some ''Dora'')),
                     (''u5'', Structured (Some 0) (Some ''Zero''))],
      writes = []\<rparr>"

text \<open>A service that knows Alice, with id 42, and nobody else.\<close>

definition knows_alice :: "string \<Rightarrow> resolve_result" where
  "knows_alice n = (if n = ''Alice'' then Resolved \<lparr>uid = 42, name = ''Alice''\<rparr> else UserNull)"

text \<open>A response for a user with the given anime and manga counts.\<close>

definition sample_response :: "string \<Rightarrow> int \<Rightarrow> int \<Rightarrow> stats_response" where
  "sample_response n ac mc =
     StatsUser (Some \<lparr>su_name = n,
       su_statistics = Some \<lparr>anime = Some \<lparr>anime_count = ac, episodesWatched = 12 * ac\<rparr>,
                              manga = Some \<lparr>manga_count = mc, chaptersRead = 100 * mc\<rparr>\<rparr>,
       su_avatar = Some ''https://img/avatar.png''\<rparr>)"

text \<open>
  The example of the specification (A with 10, B and C with 25 completed anime), with
  manga counts in another order, a failed request, a response without user and a user
  without statistics in between.
\<close>

definition sample_responses :: "stats_response list" where
  "sample_responses =
     [sample_response ''A'' 10 30, StatsFailed, sample_response ''B'' 25 5, StatsUser None,
      StatsUser (Some \<lparr>su_name = ''D'', su_statistics = None, su_avatar = None\<rparr>),
      sample_response ''C'' 25 5]"

section \<open>Objects as association lists\<close>

lemma account_eta: "\<lparr>uid = uid a, name = name a\<rparr> = (a::account)"
  by (cases a) simp

lemma obj_get_set: "obj_get (obj_set k v obj) k' = (if k' = k then Some v else obj_get obj k')"
  by (induction obj) (auto simp: obj_get_def)

lemma obj_set_keys: "fst ` set (obj_set k v obj) = insert k (fst ` set obj)"
  by (induction obj) auto

lemma obj_set_distinct: "distinct (map fst obj) \<Longrightarrow> distinct (map fst (obj_set k v obj))"
proof (induction obj)
  case Nil
  show ?case by simp
next
  case (Cons p ps)
  then show ?case using obj_set_keys [of k v ps] by (auto simp: image_iff)
qed

lemma obj_get_delete: "obj_get (obj_delete k obj) k' = (if k' = k then None else obj_get obj k')"
  by (induction obj) (auto simp: obj_get_def obj_delete_def)

lemma obj_delete_distinct: "distinct (map fst obj) \<Longrightarrow> distinct (map fst (obj_delete k obj))"
  by (simp add: obj_delete_def distinct_map_filter)

lemma obj_get_Some_mem: "obj_get obj k = Some v \<Longrightarrow> (k, v) \<in> set obj"
  by (simp add: obj_get_def map_of_SomeD)

lemma obj_get_mem: "distinct (map fst obj) \<Longrightarrow> (k, v) \<in> set obj \<Longrightarrow> obj_get obj k = Some v"
  by (simp add: obj_get_def)

section \<open>Properties of the poller\<close>

lemma poll_user_events:
  "\<exists>new. snd (poll_user fetch send u acc) = snd acc @ new \<and> new \<noteq> []
      \<and> (\<forall>e \<in> set new. event_user e = Some (name u))"
  by (cases acc) (simp add: poll_user_def Let_def split: fetch_result.split option.split)

lemma poll_user_ledger_other:
  "n \<noteq> name u \<Longrightarrow> fst (poll_user fetch send u acc) n = fst acc n"
  by (simp add: poll_user_def Let_def split: fetch_result.split option.split)

lemma fold_poll_events_mono:
  "set (snd acc) \<subseteq> set (snd (fold (poll_user fetch send) us acc))"
proof (induction us arbitrary: acc)
  case Nil
  show ?case by simp
next
  case (Cons u us)
  obtain new where "snd (poll_user fetch send u acc) = snd acc @ new"
    using poll_user_events by blast
  then have "set (snd acc) \<subseteq> set (snd (poll_user fetch send u acc))" by simp
  with Cons.IH [of "poll_user fetch send u acc"] show ?case by auto
qed

lemma fold_poll_ledger_other:
  "n \<notin> name ` set us \<Longrightarrow> fst (fold (poll_user fetch send) us acc) n = fst acc n"
  by (induction us arbitrary: acc) (simp_all add: poll_user_ledger_other)

lemma fold_poll_all_processed:
  "u \<in> set us \<Longrightarrow>
   \<exists>e \<in> set (snd (fold (poll_user fetch send) us acc)). event_user e = Some (name u)"
proof (induction us arbitrary: acc)
  case Nil
  then show ?case by simp
next
  case (Cons v us)
  show ?case
  proof (cases "u = v")
    case True
    obtain new where n: "snd (poll_user fetch send v acc) = snd acc @ new" "new \<noteq> []"
      "\<forall>e \<in> set new. event_user e = Some (name v)"
      using poll_user_events by blast
    then obtain e where "e \<in> set new" by (cases new) auto
    with n have "e \<in> set (snd (poll_user fetch send v acc))" "event_user e = Some (name u)"
      using True by auto
    with fold_poll_events_mono [of "poll_user fetch send v acc" fetch send us] show ?thesis
      by auto
  next
    case False
    with Cons.prems have "u \<in> set us" by simp
    from Cons.IH [OF this] show ?thesis by simp
  qed
qed

lemma poll_user_new:
  assumes "fetch (uid u) = Activity a" "\<not> already_known (fst acc) (name u) (act_id a)"
  shows "fst (poll_user fetch send u acc) = (fst acc)(name u \<mapsto> act_id a)"
    and "snd (poll_user fetch send u acc) = snd acc @ LedgerSet (name u) (act_id a) #
           (case act_media a of None \<Rightarrow> [LogError (name u)]
            | Some m \<Rightarrow> if send (name u) a then [Send (name u) a True, LogPosted (name u)]
                        else [Send (name u) a False, LogError (name u)])"
  using assms by (simp_all add: poll_user_def Let_def split: option.split)

lemma already_known_cong:
  "led n = led' n \<Longrightarrow> already_known led n c = already_known led' n c"
  by (simp add: already_known_def)

text \<open>
  The rule of line 198 when the ledger does not hold 0: an activity is handled as new
  exactly when nothing is stored for the name or the stored identifier is smaller.
\<close>

lemma new_unless_stored_not_less:
  "led u \<noteq> Some 0 \<Longrightarrow>
   (\<not> already_known led u c) = (led u = None \<or> (\<exists>s. led u = Some s \<and> s < c))"
  by (auto simp: already_known_def split: option.split)

lemma sequence_5_5_7_3_9:
  "map (delivered ''Alice'') (snd (run_cycles True (map feed [5, 5, 7, 3, 9]) one_user)) =
     [[5], [], [7], [], [9]]"
  by (simp add: one_user_def feed_def sample_activity_def fetchAndPostActivity_def
      obj_values_def poll_user_def already_known_def delivered_def Let_def)

lemma fold_poll_emits:
  assumes u: "u \<in> set us" and d: "distinct (map name us)"
    and f: "fetch (uid u) = Activity a" and m: "act_media a \<noteq> None"
    and s: "send (name u) a" and n: "\<not> already_known (fst acc) (name u) (act_id a)"
  shows "Send (name u) a True \<in> set (snd (fold (poll_user fetch send) us acc))"
proof -
  from u obtain pre post where us: "us = pre @ u # post" by (auto simp: in_set_conv_decomp)
  with d have "name u \<notin> name ` set pre" by auto
  then have same: "fst (fold (poll_user fetch send) pre acc) (name u) = fst acc (name u)"
    by (rule fold_poll_ledger_other)
  let ?mid = "fold (poll_user fetch send) pre acc"
  from n same have "\<not> already_known (fst ?mid) (name u) (act_id a)"
    using already_known_cong [of "fst ?mid" "name u" "fst acc" "act_id a"] by simp
  then have "Send (name u) a True \<in> set (snd (poll_user fetch send u ?mid))"
    using poll_user_new(2) [where fetch = fetch and u = u and a = a and acc = ?mid and send = send]
      f m s by auto
  then have "Send (name u) a True
      \<in> set (snd (fold (poll_user fetch send) post (poll_user fetch send u ?mid)))"
    using fold_poll_events_mono by blast
  then show ?thesis by (simp add: us)
qed

text \<open>
  Within the pass over one user, the ledger is written before \<open>channel.send\<close> is
  called, and the written identifier stays whatever the send does. A stored identifier
  other than 0 then makes the same activity known.
\<close>

lemma ledger_set_before_send:
  assumes "fetch (uid u) = Activity a" and "\<not> already_known led (name u) (act_id a)"
  shows "fst (poll_user fetch send u (led, evs)) (name u) = Some (act_id a)"
    and "\<exists>rest. snd (poll_user fetch send u (led, evs)) = evs @ LedgerSet (name u) (act_id a) # rest"
    and "act_id a \<noteq> 0 \<Longrightarrow>
         already_known (fst (poll_user fetch send u (led, evs))) (name u) (act_id a)"
  using assms
    poll_user_new [where fetch = fetch and u = u and a = a and acc = "(led, evs)" and send = send]
  by (simp_all add: already_known_def)

text \<open>
  C1. The claim: over successive cycles a fetched activity is notified exactly when the
  ledger holds nothing for the user's name or holds a strictly smaller identifier. On
  the code, the test of line 198 reads a stored 0 as absent: fed the identifiers 0, 0,
  the poller delivers the notification for 0 in both cycles.
  (\<open>new_unless_stored_not_less\<close> is the rule for a ledger not holding 0, and
  \<open>sequence_5_5_7_3_9\<close> the example of the claim.)
\<close>

theorem repeated_zero_notified_again:
  "map (delivered ''Alice'') (snd (run_cycles True (map feed [0, 0]) one_user)) = [[0], [0]]"
  by (simp add: one_user_def feed_def sample_activity_def fetchAndPostActivity_def
      obj_values_def poll_user_def already_known_def delivered_def Let_def)

text \<open>
  C8. The claim: the ledger is written before the notification is sent, so a failed send
  leaves the ledger updated and the activity is never handled again in a later cycle.
  The order and the update hold (\<open>ledger_set_before_send\<close>), but for the identifier 0
  the stored value is read as absent: after a failed send of activity 0, the next cycle
  writes the ledger and sends the same activity again.
\<close>

theorem failed_send_of_zero_reprocessed:
  "snd (run_cycles True [feed_failing_send 0, feed 0] one_user) =
     [[LedgerSet ''Alice'' 0, Send ''Alice'' (sample_activity 0) False, LogError ''Alice''],
      [LedgerSet ''Alice'' 0, Send ''Alice'' (sample_activity 0) True, LogPosted ''Alice'']]"
  by (simp add: one_user_def feed_def feed_failing_send_def sample_activity_def
      fetchAndPostActivity_def obj_values_def poll_user_def already_known_def Let_def)

text \<open>
  C7. In one cycle over the store (a channel is configured, the names in the store are
  distinct), a user whose latest activity is fetched, is not already known at the start
  of the cycle, can be rendered and is accepted by the channel has the notification sent,
  whatever the service answers for the other users (a failure, no activity); and every
  user of the store is handled: the cycle's events mention each of them. The function
  returns a state and events for every input; no exception leaves the loop.
\<close>

theorem poll_cycle_isolated:
  assumes "channel" and "(k, u) \<in> set (anilistUsers st)"
    and "distinct (map (name \<circ> snd) (anilistUsers st))"
    and "fetch (uid u) = Activity a" and "act_media a \<noteq> None" and "send (name u) a"
    and "\<not> already_known (lastActivityId st) (name u) (act_id a)"
  shows "Send (name u) a True \<in> set (snd (fetchAndPostActivity channel fetch send st)) \<and>
         (\<forall>v \<in> set (obj_values (anilistUsers st)).
            \<exists>e \<in> set (snd (fetchAndPostActivity channel fetch send st)).
              event_user e = Some (name v))"
proof -
  let ?us = "obj_values (anilistUsers st)"
  from assms(2) have mem: "u \<in> set ?us" by (force simp: obj_values_def)
  then have ne: "?us \<noteq> []" by auto
  from assms(3) have d: "distinct (map name ?us)" by (simp add: obj_values_def)
  have run: "snd (fetchAndPostActivity channel fetch send st) =
      snd (fold (poll_user fetch send) ?us (lastActivityId st, []))"
    using ne assms(1) by (simp add: fetchAndPostActivity_def Let_def)
  have "Send (name u) a True \<in> set (snd (fold (poll_user fetch send) ?us (lastActivityId st, [])))"
    using fold_poll_emits [where u = u and us = ?us and fetch = fetch and a = a and send = send
        and acc = "(lastActivityId st, [])"] mem d assms(4-7) by simp
  moreover have "\<forall>v \<in> set ?us.
      \<exists>e \<in> set (snd (fold (poll_user fetch send) ?us (lastActivityId st, []))).
        event_user e = Some (name v)"
    using fold_poll_all_processed by blast
  ultimately show ?thesis by (simp only: run)
qed

theorem poll_cycle_isolated_witness:
  "fetchAndPostActivity True (failing_for 42 (sample_activity 7)) (\<lambda>_ _. True) two_users =
     (two_users\<lparr>lastActivityId := [''Bob'' \<mapsto> 7]\<rparr>,
      [LogError ''Alice'', LedgerSet ''Bob'' 7, Send ''Bob'' (sample_activity 7) True,
       LogPosted ''Bob''])
   \<and> Send ''Bob'' (sample_activity 7) True
       \<in> set (snd (fetchAndPostActivity True (failing_for 42 (sample_activity 7))
                     (\<lambda>_ _. True) two_users))"
proof -
  have h: "(''222222222222222222'', \<lparr>uid = 43, name = ''Bob''\<rparr>) \<in> set (anilistUsers two_users)"
    by (simp add: two_users_def)
  have d: "distinct (map (name \<circ> snd) (anilistUsers two_users))" by (simp add: two_users_def)
  have f: "failing_for 42 (sample_activity 7) (uid \<lparr>uid = 43, name = ''Bob''\<rparr>) =
      Activity (sample_activity 7)"
    by (simp add: failing_for_def)
  have m: "act_media (sample_activity 7) \<noteq> None" by (simp add: sample_activity_def)
  have n: "\<not> already_known (lastActivityId two_users) (name \<lparr>uid = 43, name = ''Bob''\<rparr>)
      (act_id (sample_activity 7))"
    by (simp add: already_known_def two_users_def)
  have e: "fetchAndPostActivity True (failing_for 42 (sample_activity 7)) (\<lambda>_ _. True) two_users =
     (two_users\<lparr>lastActivityId := [''Bob'' \<mapsto> 7]\<rparr>,
      [LogError ''Alice'', LedgerSet ''Bob'' 7, Send ''Bob'' (sample_activity 7) True,
       LogPosted ''Bob''])"
    by (simp add: two_users_def failing_for_def sample_activity_def fetchAndPostActivity_def
      obj_values_def poll_user_def already_known_def Let_def)
  show ?thesis
    using poll_cycle_isolated [where channel = True and st = two_users
        and fetch = "failing_for 42 (sample_activity 7)"
        and u = "\<lparr>uid = 43, name = ''Bob''\<rparr>" and a = "sample_activity 7"
        and send = "\<lambda>_ _. True" and k = "''222222222222222222''"] h d f m n e
    by simp
qed

section \<open>Properties of loadUsers\<close>

lemma convert_entry_users:
  "convertedUsers (convert_entry resolve e l) =
     (case converted_value resolve (snd e) of
        Some a \<Rightarrow> obj_set (fst e) a (convertedUsers l)
      | None \<Rightarrow> convertedUsers l)"
  by (simp add: convert_entry_def converted_value_def account_eta Let_def
      split: raw_value.split resolve_result.split option.split)

lemma convert_entry_save:
  "requiresSave (convert_entry resolve e l) = (requiresSave l \<or> upgraded resolve (snd e))"
  by (simp add: convert_entry_def upgraded_def Let_def
      split: raw_value.split resolve_result.split option.split)

lemma fold_convert_save:
  "requiresSave (fold (convert_entry resolve) raw l) =
     (requiresSave l \<or> (\<exists>e \<in> set raw. upgraded resolve (snd e)))"
  by (induction raw arbitrary: l) (auto simp: convert_entry_save)

lemma fold_convert_absent:
  "k \<notin> fst ` set raw \<Longrightarrow>
   obj_get (convertedUsers (fold (convert_entry resolve) raw l)) k = obj_get (convertedUsers l) k"
proof (induction raw arbitrary: l)
  case Nil
  show ?case by simp
next
  case (Cons e raw)
  then have "k \<noteq> fst e" "k \<notin> fst ` set raw" by auto
  then show ?case
    using Cons.IH [of "convert_entry resolve e l"]
    by (simp add: convert_entry_users obj_get_set split: option.split)
qed

lemma fold_convert_get:
  "distinct (map fst raw) \<Longrightarrow> (k, v) \<in> set raw \<Longrightarrow>
   obj_get (convertedUsers (fold (convert_entry resolve) raw l)) k =
     (case converted_value resolve v of Some a \<Rightarrow> Some a | None \<Rightarrow> obj_get (convertedUsers l) k)"
proof (induction raw arbitrary: l)
  case Nil
  then show ?case by simp
next
  case (Cons e raw)
  show ?case
  proof (cases "e = (k, v)")
    case True
    with Cons.prems have "k \<notin> fst ` set raw" by auto
    then show ?thesis
      using True by (simp add: fold_convert_absent convert_entry_users obj_get_set split: option.split)
  next
    case False
    with Cons.prems have mem: "(k, v) \<in> set raw" and d: "distinct (map fst raw)" by auto
    from Cons.prems mem have "fst e \<noteq> k" by (auto simp: image_iff)
    then show ?thesis
      using Cons.IH [OF d mem, of "convert_entry resolve e l"]
      by (simp add: convert_entry_users obj_get_set split: option.split)
  qed
qed

lemma fold_convert_log_quiet:
  "\<forall>e \<in> set raw. \<forall>v. snd e \<noteq> Bare v \<Longrightarrow>
   load_log (fold (convert_entry resolve) raw l) = load_log l"
  by (induction raw arbitrary: l)
     (auto simp: convert_entry_def Let_def split: raw_value.split option.split)

lemma converted_value_malformed: "malformed v \<Longrightarrow> converted_value resolve v = None"
  by (auto simp: malformed_def converted_value_def split: raw_value.splits option.splits)

lemma upgraded_iff: "upgraded resolve v = (\<exists>n userData. v = Bare n \<and> resolve n = Resolved userData)"
  by (auto simp: upgraded_def split: raw_value.splits resolve_result.splits)

lemma loadUsers_store:
  "disk st = Parsed raw \<Longrightarrow>
   anilistUsers (fst (loadUsers resolve write_ok st)) =
     (if write_ok \<or> \<not> (\<exists>e \<in> set raw. upgraded resolve (snd e))
      then convertedUsers (fold (convert_entry resolve) raw
             \<lparr>convertedUsers = [], requiresSave = False, load_log = []\<rparr>)
      else [])"
  by (simp add: loadUsers_def saveUsers_def fold_convert_save Let_def)

lemma loadUsers_writes:
  "disk st = Parsed raw \<Longrightarrow>
   writes (fst (loadUsers resolve write_ok st)) =
     (if write_ok \<and> (\<exists>e \<in> set raw. upgraded resolve (snd e))
      then writes st @ [anilistUsers (fst (loadUsers resolve write_ok st))]
      else writes st)"
  by (simp add: loadUsers_def saveUsers_def fold_convert_save Let_def)

lemma loadUsers_get:
  assumes "disk st = Parsed raw" and "distinct (map fst raw)" and "(k, v) \<in> set raw"
    and "write_ok \<or> \<not> (\<exists>e \<in> set raw. upgraded resolve (snd e))"
  shows "obj_get (anilistUsers (fst (loadUsers resolve write_ok st))) k = converted_value resolve v"
proof -
  have "obj_get (convertedUsers (fold (convert_entry resolve) raw
           \<lparr>convertedUsers = [], requiresSave = False, load_log = []\<rparr>)) k =
        converted_value resolve v"
    using fold_convert_get [OF assms(2) assms(3), of resolve
        "\<lparr>convertedUsers = [], requiresSave = False, load_log = []\<rparr>"]
    by (simp add: obj_get_def split: option.split)
  then show ?thesis using assms(4) by (simp add: loadUsers_store [OF assms(1)])
qed

lemma loadUsers_get_None:
  assumes "disk st = Parsed raw" and "distinct (map fst raw)" and "(k, v) \<in> set raw"
    and "converted_value resolve v = None"
  shows "obj_get (anilistUsers (fst (loadUsers resolve write_ok st))) k = None"
proof (cases "write_ok \<or> \<not> (\<exists>e \<in> set raw. upgraded resolve (snd e))")
  case True
  then show ?thesis using loadUsers_get [OF assms(1-3)] assms(4) by simp
next
  case False
  then show ?thesis by (simp add: loadUsers_store [OF assms(1)] obj_get_def)
qed

lemma fold_convert_malformed:
  "\<forall>e \<in> set raw. malformed (snd e) \<Longrightarrow>
   convertedUsers (fold (convert_entry resolve) raw l) = convertedUsers l"
  by (induction raw arbitrary: l) (simp_all add: convert_entry_users converted_value_malformed)

text \<open>
  C3. For a parsed document (its keys distinct, the write to disk going through): a
  bare-string entry that the service resolves is, in the loaded store, the \<open>{id, name}\<close>
  the service returned, and the load writes the whole store exactly once; when no
  bare-string entry of the document is resolved (or there is no parsed document), the
  load writes nothing.
\<close>

theorem load_upgrades_legacy_entry:
  "(disk st = Parsed raw \<and> distinct (map fst raw) \<and> (k, Bare n) \<in> set raw \<and>
      resolve n = Resolved userData \<longrightarrow>
      obj_get (anilistUsers (fst (loadUsers resolve True st))) k =
        Some \<lparr>uid = uid userData, name = name userData\<rparr> \<and>
      writes (fst (loadUsers resolve True st)) =
        writes st @ [anilistUsers (fst (loadUsers resolve True st))])
   \<and> ((\<forall>raw'. disk st = Parsed raw' \<longrightarrow>
          (\<forall>k' n' u'. (k', Bare n') \<in> set raw' \<longrightarrow> resolve n' \<noteq> Resolved u')) \<longrightarrow>
        writes (fst (loadUsers resolve write_ok st)) = writes st)"
proof (intro conjI impI)
  assume a: "disk st = Parsed raw \<and> distinct (map fst raw) \<and> (k, Bare n) \<in> set raw \<and>
      resolve n = Resolved userData"
  then have up: "\<exists>e \<in> set raw. upgraded resolve (snd e)"
    by (force simp: upgraded_iff)
  from a have "converted_value resolve (Bare n) = Some userData"
    by (simp add: converted_value_def)
  with a show "obj_get (anilistUsers (fst (loadUsers resolve True st))) k =
        Some \<lparr>uid = uid userData, name = name userData\<rparr>"
    using loadUsers_get [of st raw k "Bare n" True resolve] by (simp add: account_eta)
  from a up show "writes (fst (loadUsers resolve True st)) =
        writes st @ [anilistUsers (fst (loadUsers resolve True st))]"
    using loadUsers_writes [of st raw resolve True] by simp
next
  assume b: "\<forall>raw'. disk st = Parsed raw' \<longrightarrow>
          (\<forall>k' n' u'. (k', Bare n') \<in> set raw' \<longrightarrow> resolve n' \<noteq> Resolved u')"
  show "writes (fst (loadUsers resolve write_ok st)) = writes st"
  proof (cases "disk st")
    case Absent
    then show ?thesis by (simp add: loadUsers_def)
  next
    case Unparsable
    then show ?thesis by (simp add: loadUsers_def)
  next
    case (Parsed raw')
    with b have "\<not> (\<exists>e \<in> set raw'. upgraded resolve (snd e))"
      by (auto simp: upgraded_iff)
    then show ?thesis using loadUsers_writes [OF Parsed, of resolve write_ok] by simp
  qed
qed

theorem load_upgrades_legacy_entry_witness:
  "obj_get (anilistUsers (fst (loadUsers knows_alice True legacy_doc))) ''u1'' =
     Some \<lparr>uid = 42, name = ''Alice''\<rparr>
   \<and> writes (fst (loadUsers knows_alice True legacy_doc)) =
       [[(''u1'', \<lparr>uid = 42, name = ''Alice''\<rparr>), (''u4'', \<lparr>uid = 7, name = ''Dora''\<rparr>)]]
   \<and> writes (fst (loadUsers (\<lambda>_. ApiError) True legacy_doc)) = writes legacy_doc"
proof -
  have e: "anilistUsers (fst (loadUsers knows_alice True legacy_doc)) =
      [(''u1'', \<lparr>uid = 42, name = ''Alice''\<rparr>), (''u4'', \<lparr>uid = 7, name = ''Dora''\<rparr>)]"
    by (simp add: loadUsers_def legacy_doc_def knows_alice_def convert_entry_def saveUsers_def
        Let_def)
  have w: "writes legacy_doc = []" by (simp add: legacy_doc_def)
  have h: "disk legacy_doc = Parsed [(''u1'', Bare ''Alice''), (''u2'', Bare ''Ghost''), (''u3'', Other),
                     (''u4'', Structured (Some 7) (Some ''Dora'')),
                     (''u5'', Structured (Some 0) (Some ''Zero''))]"
    by (simp add: legacy_doc_def)
  have r: "knows_alice ''Alice'' = Resolved \<lparr>uid = 42, name = ''Alice''\<rparr>"
    by (simp add: knows_alice_def)
  have one: "obj_get (anilistUsers (fst (loadUsers knows_alice True legacy_doc))) ''u1'' =
        Some \<lparr>uid = 42, name = ''Alice''\<rparr> \<and>
      writes (fst (loadUsers knows_alice True legacy_doc)) =
        writes legacy_doc @ [anilistUsers (fst (loadUsers knows_alice True legacy_doc))]"
    using load_upgrades_legacy_entry [where st = legacy_doc and k = "''u1''" and n = "''Alice''"
        and resolve = knows_alice and userData = "\<lparr>uid = 42, name = ''Alice''\<rparr>"
        and raw = "[(''u1'', Bare ''Alice''), (''u2'', Bare ''Ghost''), (''u3'', Other),
                     (''u4'', Structured (Some 7) (Some ''Dora'')),
                     (''u5'', Structured (Some 0) (Some ''Zero''))]"] h r
    by simp
  have two: "writes (fst (loadUsers (\<lambda>_. ApiError) True legacy_doc)) = writes legacy_doc"
    using load_upgrades_legacy_entry [where st = legacy_doc and resolve = "\<lambda>_. ApiError"
        and write_ok = True]
    by simp
  from one two e w show ?thesis by simp
qed

text \<open>
  C4. For a parsed document with distinct keys: a bare-string entry whose resolution
  fails (the user is null, or the request throws) is not in the loaded store; and, the
  write to disk going through, an entry whose resolution succeeded is there in the
  resolved form and an entry that was an object with truthy \<open>id\<close> and \<open>name\<close> is
  there as it was.
\<close>

theorem load_drops_unresolved_entry:
  assumes "disk st = Parsed raw" and "distinct (map fst raw)"
  shows "((k, Bare n) \<in> set raw \<and> (resolve n = UserNull \<or> resolve n = ApiError) \<longrightarrow>
            obj_get (anilistUsers (fst (loadUsers resolve write_ok st))) k = None)
       \<and> ((k1, Bare n1) \<in> set raw \<and> resolve n1 = Resolved userData \<longrightarrow>
            obj_get (anilistUsers (fst (loadUsers resolve True st))) k1 =
              Some \<lparr>uid = uid userData, name = name userData\<rparr>)
       \<and> ((k2, Structured (Some i) (Some nm)) \<in> set raw \<and> i \<noteq> 0 \<and> nm \<noteq> [] \<longrightarrow>
            obj_get (anilistUsers (fst (loadUsers resolve True st))) k2 =
              Some \<lparr>uid = i, name = nm\<rparr>)"
proof (intro conjI impI)
  assume a: "(k, Bare n) \<in> set raw \<and> (resolve n = UserNull \<or> resolve n = ApiError)"
  then have "converted_value resolve (Bare n) = None"
    by (auto simp: converted_value_def)
  with a show "obj_get (anilistUsers (fst (loadUsers resolve write_ok st))) k = None"
    using loadUsers_get_None [OF assms, of k "Bare n" resolve write_ok] by simp
next
  assume a: "(k1, Bare n1) \<in> set raw \<and> resolve n1 = Resolved userData"
  then have "converted_value resolve (Bare n1) = Some userData"
    by (simp add: converted_value_def)
  with a show "obj_get (anilistUsers (fst (loadUsers resolve True st))) k1 =
      Some \<lparr>uid = uid userData, name = name userData\<rparr>"
    using loadUsers_get [OF assms, of k1 "Bare n1" True resolve] by (simp add: account_eta)
next
  assume a: "(k2, Structured (Some i) (Some nm)) \<in> set raw \<and> i \<noteq> 0 \<and> nm \<noteq> []"
  then have "converted_value resolve (Structured (Some i) (Some nm)) = Some \<lparr>uid = i, name = nm\<rparr>"
    by (simp add: converted_value_def)
  with a show "obj_get (anilistUsers (fst (loadUsers resolve True st))) k2 =
      Some \<lparr>uid = i, name = nm\<rparr>"
    using loadUsers_get [OF assms, of k2 "Structured (Some i) (Some nm)" True resolve] by simp
qed

theorem load_drops_unresolved_entry_witness:
  "obj_get (anilistUsers (fst (loadUsers knows_alice True legacy_doc))) ''u2'' = None
   \<and> obj_get (anilistUsers (fst (loadUsers knows_alice True legacy_doc))) ''u1'' =
       Some \<lparr>uid = 42, name = ''Alice''\<rparr>
   \<and> obj_get (anilistUsers (fst (loadUsers knows_alice True legacy_doc))) ''u4'' =
       Some \<lparr>uid = 7, name = ''Dora''\<rparr>
   \<and> anilistUsers (fst (loadUsers knows_alice True legacy_doc)) =
       [(''u1'', \<lparr>uid = 42, name = ''Alice''\<rparr>), (''u4'', \<lparr>uid = 7, name = ''Dora''\<rparr>)]"
proof -
  have e: "anilistUsers (fst (loadUsers knows_alice True legacy_doc)) =
      [(''u1'', \<lparr>uid = 42, name = ''Alice''\<rparr>), (''u4'', \<lparr>uid = 7, name = ''Dora''\<rparr>)]"
    by (simp add: loadUsers_def legacy_doc_def knows_alice_def convert_entry_def saveUsers_def
        Let_def)
  have h: "disk legacy_doc = Parsed [(''u1'', Bare ''Alice''), (''u2'', Bare ''Ghost''), (''u3'', Other),
                     (''u4'', Structured (Some 7) (Some ''Dora'')),
                     (''u5'', Structured (Some 0) (Some ''Zero''))]"
    by (simp add: legacy_doc_def)
  have d: "distinct (map fst [(''u1'', Bare ''Alice''), (''u2'', Bare ''Ghost''), (''u3'', Other),
                     (''u4'', Structured (Some 7) (Some ''Dora'')),
                     (''u5'', Structured (Some 0) (Some ''Zero''))])"
    by simp
  have r: "knows_alice ''Alice'' = Resolved \<lparr>uid = 42, name = ''Alice''\<rparr>"
    "knows_alice ''Ghost'' = UserNull"
    by (simp_all add: knows_alice_def)
  have "obj_get (anilistUsers (fst (loadUsers knows_alice True legacy_doc))) ''u2'' = None
   \<and> obj_get (anilistUsers (fst (loadUsers knows_alice True legacy_doc))) ''u1'' =
       Some \<lparr>uid = 42, name = ''Alice''\<rparr>
   \<and> obj_get (anilistUsers (fst (loadUsers knows_alice True legacy_doc))) ''u4'' =
       Some \<lparr>uid = 7, name = ''Dora''\<rparr>"
    using load_drops_unresolved_entry [OF h d, where resolve = knows_alice and write_ok = True
        and k = "''u2''" and n = "''Ghost''" and ?k1.0 = "''u1''" and ?n1.0 = "''Alice''"
        and userData = "\<lparr>uid = 42, name = ''Alice''\<rparr>" and ?k2.0 = "''u4''" and i = 7
        and nm = "''Dora''"] r
    by simp
  with e show ?thesis by simp
qed

text \<open>
  C10. \<open>loadUsers\<close> returns for every input. When the document cannot be read or
  parsed, the error is logged and the store is empty; the same when the \<open>saveUsers\<close>
  after a conversion throws. In a parsed document with distinct keys, a value that is
  neither a string nor an object with truthy \<open>id\<close> and \<open>name\<close> is not in the loaded
  store, and nothing is logged for it: a document of such values only loads as the
  empty store with the one line that counts the users.
\<close>

theorem load_survives_bad_document:
  "(disk st = Unparsable \<longrightarrow>
      loadUsers resolve write_ok st = (st\<lparr>anilistUsers := []\<rparr>, [LogLoadError]))
   \<and> (disk st = Parsed raw \<and> (k, Bare n) \<in> set raw \<and> resolve n = Resolved userData \<longrightarrow>
        anilistUsers (fst (loadUsers resolve False st)) = [] \<and>
        LogLoadError \<in> set (snd (loadUsers resolve False st)))
   \<and> (disk st = Parsed raw \<and> distinct (map fst raw) \<and> (k', v) \<in> set raw \<and> malformed v \<longrightarrow>
        obj_get (anilistUsers (fst (loadUsers resolve write_ok st))) k' = None)
   \<and> (disk st = Parsed raw \<and> (\<forall>e \<in> set raw. malformed (snd e)) \<longrightarrow>
        loadUsers resolve write_ok st = (st\<lparr>anilistUsers := []\<rparr>, [LogLoaded 0]))"
proof (intro conjI impI)
  assume "disk st = Unparsable"
  then show "loadUsers resolve write_ok st = (st\<lparr>anilistUsers := []\<rparr>, [LogLoadError])"
    by (simp add: loadUsers_def)
next
  assume a: "disk st = Parsed raw \<and> (k, Bare n) \<in> set raw \<and> resolve n = Resolved userData"
  then have up: "\<exists>e \<in> set raw. upgraded resolve (snd e)"
    by (force simp: upgraded_iff)
  with a show "anilistUsers (fst (loadUsers resolve False st)) = []"
    using loadUsers_store [of st raw resolve False] by simp
  from a up show "LogLoadError \<in> set (snd (loadUsers resolve False st))"
    by (simp add: loadUsers_def saveUsers_def fold_convert_save Let_def)
next
  assume a: "disk st = Parsed raw \<and> distinct (map fst raw) \<and> (k', v) \<in> set raw \<and> malformed v"
  then show "obj_get (anilistUsers (fst (loadUsers resolve write_ok st))) k' = None"
    using loadUsers_get_None [of st raw k' v resolve write_ok] converted_value_malformed [of v resolve]
    by simp
next
  assume a: "disk st = Parsed raw \<and> (\<forall>e \<in> set raw. malformed (snd e))"
  let ?l0 = "\<lparr>convertedUsers = [], requiresSave = False, load_log = []\<rparr>"
  from a have nb: "\<forall>e \<in> set raw. \<forall>b. snd e \<noteq> Bare b"
    by (auto simp: malformed_def)
  then have up: "\<not> (\<exists>e \<in> set raw. upgraded resolve (snd e))"
    by (auto simp: upgraded_iff)
  have quiet: "load_log (fold (convert_entry resolve) raw ?l0) = []"
    using fold_convert_log_quiet [OF nb, of resolve ?l0] by simp
  have stay: "convertedUsers (fold (convert_entry resolve) raw ?l0) = []"
    using a fold_convert_malformed [of raw resolve ?l0] by simp
  from a up quiet stay show "loadUsers resolve write_ok st = (st\<lparr>anilistUsers := []\<rparr>, [LogLoaded 0])"
    by (simp add: loadUsers_def fold_convert_save Let_def)
qed

theorem load_survives_bad_document_witness:
  "loadUsers knows_alice True (legacy_doc\<lparr>disk := Unparsable\<rparr>) =
     (legacy_doc\<lparr>disk := Unparsable, anilistUsers := []\<rparr>, [LogLoadError])
   \<and> anilistUsers (fst (loadUsers knows_alice False legacy_doc)) = []
   \<and> LogLoadError \<in> set (snd (loadUsers knows_alice False legacy_doc))
   \<and> obj_get (anilistUsers (fst (loadUsers knows_alice True legacy_doc))) ''u5'' = None
   \<and> loadUsers knows_alice True
        (legacy_doc\<lparr>disk := Parsed [(''u3'', Other), (''u6'', Structured None (Some ''NoId''))]\<rparr>) =
       (legacy_doc\<lparr>disk := Parsed [(''u3'', Other), (''u6'', Structured None (Some ''NoId''))],
                    anilistUsers := []\<rparr>, [LogLoaded 0])"
proof -
  let ?raw = "[(''u1'', Bare ''Alice''), (''u2'', Bare ''Ghost''), (''u3'', Other),
                     (''u4'', Structured (Some 7) (Some ''Dora'')),
                     (''u5'', Structured (Some 0) (Some ''Zero''))]"
  let ?bad = "[(''u3'', Other), (''u6'', Structured None (Some ''NoId''))]"
  have h: "disk legacy_doc = Parsed ?raw" by (simp add: legacy_doc_def)
  have r: "knows_alice ''Alice'' = Resolved \<lparr>uid = 42, name = ''Alice''\<rparr>"
    by (simp add: knows_alice_def)
  have m: "malformed (Structured (Some 0) (Some ''Zero''))" "\<forall>e \<in> set ?bad. malformed (snd e)"
    by (simp_all add: malformed_def)
  have 1: "loadUsers knows_alice True (legacy_doc\<lparr>disk := Unparsable\<rparr>) =
     (legacy_doc\<lparr>disk := Unparsable, anilistUsers := []\<rparr>, [LogLoadError])"
    using load_survives_bad_document [where st = "legacy_doc\<lparr>disk := Unparsable\<rparr>"
        and resolve = knows_alice and write_ok = True]
    by simp
  have 2: "anilistUsers (fst (loadUsers knows_alice False legacy_doc)) = []
      \<and> LogLoadError \<in> set (snd (loadUsers knows_alice False legacy_doc))"
    using load_survives_bad_document [where st = legacy_doc and resolve = knows_alice
        and raw = ?raw and k = "''u1''" and n = "''Alice''"
        and userData = "\<lparr>uid = 42, name = ''Alice''\<rparr>"] h r
    by simp
  have 3: "obj_get (anilistUsers (fst (loadUsers knows_alice True legacy_doc))) ''u5'' = None"
    using load_survives_bad_document [where st = legacy_doc and resolve = knows_alice
        and raw = ?raw and k' = "''u5''" and v = "Structured (Some 0) (Some ''Zero'')"
        and write_ok = True] h m(1)
    by simp
  have 4: "loadUsers knows_alice True (legacy_doc\<lparr>disk := Parsed ?bad\<rparr>) =
       (legacy_doc\<lparr>disk := Parsed ?bad, anilistUsers := []\<rparr>, [LogLoaded 0])"
    using load_survives_bad_document [where st = "legacy_doc\<lparr>disk := Parsed ?bad\<rparr>"
        and resolve = knows_alice and raw = ?bad and write_ok = True] m(2)
    by simp
  from 1 2 3 4 show ?thesis by simp
qed

section \<open>Properties of link and unlink\<close>

lemma toLowerCase_empty: "toLowerCase s = [] \<longleftrightarrow> s = []"
  by (simp add: toLowerCase_def)

lemma obj_set_present:
  "distinct (map fst obj) \<Longrightarrow> obj_get obj k = Some old \<Longrightarrow>
   map fst (obj_set k v obj) = map fst obj \<and> filter (\<lambda>p. fst p = k) (obj_set k v obj) = [(k, v)]"
proof (induction obj)
  case Nil
  then show ?case by (simp add: obj_get_def)
next
  case (Cons p ps)
  show ?case
  proof (cases "fst p = k")
    case True
    with Cons.prems have "k \<notin> fst ` set ps" by auto
    then have "filter (\<lambda>p. fst p = k) ps = []" by (auto simp: filter_empty_conv)
    with True show ?thesis by simp
  next
    case False
    with Cons.prems have "obj_get ps k = Some old" "distinct (map fst ps)"
      by (auto simp: obj_get_def)
    with Cons.IH False show ?thesis by simp
  qed
qed

lemma saveUsers_ok:
  "saveUsers True st =
     Some (st\<lparr>disk := Parsed (map stored_form (anilistUsers st)),
               writes := writes st @ [anilistUsers st]\<rparr>)"
  by (simp add: saveUsers_def)

text \<open>
  C2. When account \<open>a\<close> is linked to a remote name and a different account \<open>b\<close>, whose
  own current link (if any) is not to that name, asks to link a non-empty name equal to
  it up to letter case, the reply is the already-linked one and nothing changes. The
  check exempts the caller's own link: a caller whose current name equals the requested
  one up to case is not stopped by it.
\<close>

theorem link_rejects_name_of_other_account:
  "(a \<noteq> b \<and> obj_get (anilistUsers st) a = Some u \<and> length parts = 3 \<and> parts ! 2 \<noteq> [] \<and>
      toLowerCase (name u) = toLowerCase (parts ! 2) \<and>
      (\<forall>v. obj_get (anilistUsers st) b = Some v \<longrightarrow>
           toLowerCase (name v) \<noteq> toLowerCase (parts ! 2)) \<longrightarrow>
      link resolve write_ok b parts st = (st, AlreadyLinked (parts ! 2)))
   \<and> (obj_get (anilistUsers st) b = Some own \<and>
        toLowerCase (name own) = toLowerCase usernameToLink \<longrightarrow>
        existingUser st b usernameToLink = None)"
proof (intro conjI impI)
  assume h: "a \<noteq> b \<and> obj_get (anilistUsers st) a = Some u \<and> length parts = 3 \<and> parts ! 2 \<noteq> [] \<and>
      toLowerCase (name u) = toLowerCase (parts ! 2) \<and>
      (\<forall>v. obj_get (anilistUsers st) b = Some v \<longrightarrow>
           toLowerCase (name v) \<noteq> toLowerCase (parts ! 2))"
  then have "toLowerCase (parts ! 2) \<noteq> []" by (simp add: toLowerCase_empty)
  with h have own: "own_name st b \<noteq> toLowerCase (parts ! 2)"
    by (cases "obj_get (anilistUsers st) b") (auto simp: own_name_def)
  from h have "(a, u) \<in> set (anilistUsers st)" by (simp add: obj_get_Some_mem)
  then have "u \<in> set (obj_values (anilistUsers st))" by (force simp: obj_values_def)
  with h own have "existingUser st b (parts ! 2) \<noteq> None"
    by (auto simp: existingUser_def find_None_iff)
  with h show "link resolve write_ok b parts st = (st, AlreadyLinked (parts ! 2))"
    by (auto simp: link_def Let_def)
next
  assume "obj_get (anilistUsers st) b = Some own \<and>
        toLowerCase (name own) = toLowerCase usernameToLink"
  then show "existingUser st b usernameToLink = None"
    by (simp add: existingUser_def own_name_def find_None_iff)
qed

theorem link_rejects_name_of_other_account_witness:
  "link knows_carol True ''222222222222222222'' [''!anilist'', ''link'', ''aLiCe''] two_users =
     (two_users, AlreadyLinked ''aLiCe'')
   \<and> existingUser two_users ''222222222222222222'' ''BOB'' = None"
proof -
  have g: "obj_get (anilistUsers two_users) ''111111111111111111'' = Some \<lparr>uid = 42, name = ''Alice''\<rparr>"
    "obj_get (anilistUsers two_users) ''222222222222222222'' = Some \<lparr>uid = 43, name = ''Bob''\<rparr>"
    by (simp_all add: two_users_def obj_get_def)
  have l: "toLowerCase ''Alice'' = toLowerCase ''aLiCe''" "toLowerCase ''Bob'' \<noteq> toLowerCase ''aLiCe''"
    "toLowerCase ''Bob'' = toLowerCase ''BOB''"
    by (simp_all add: toLowerCase_def lower_char_def)
  have 1: "link knows_carol True ''222222222222222222'' [''!anilist'', ''link'', ''aLiCe''] two_users =
     (two_users, AlreadyLinked ''aLiCe'')"
    using link_rejects_name_of_other_account [where a = "''111111111111111111''"
        and b = "''222222222222222222''" and st = two_users
        and u = "\<lparr>uid = 42, name = ''Alice''\<rparr>"
        and parts = "[''!anilist'', ''link'', ''aLiCe'']" and resolve = knows_carol
        and write_ok = True] g l
    by simp
  have 2: "existingUser two_users ''222222222222222222'' ''BOB'' = None"
    using link_rejects_name_of_other_account [where b = "''222222222222222222''" and st = two_users
        and own = "\<lparr>uid = 43, name = ''Bob''\<rparr>" and usernameToLink = "''BOB''"] g l
    by simp
  from 1 2 show ?thesis by simp
qed

text \<open>
  C5. Unlinking a linked account (the write to disk going through) answers with the
  unlinked reply, removes the account's entry from the store and the entry of its remote
  name from the ledger, leaves the other entries of both as they were, and writes the
  store; unlinking again answers not-linked. Unlinking an account with no link changes
  nothing and answers not-linked.
\<close>

theorem unlink_removes_link_and_ledger_entry:
  "(obj_get (anilistUsers st) k = Some anilistUser \<longrightarrow>
      snd (unlink True k st) = Unlinked (name anilistUser) \<and>
      obj_get (anilistUsers (fst (unlink True k st))) k = None \<and>
      lastActivityId (fst (unlink True k st)) (name anilistUser) = None \<and>
      (\<forall>k'. k' \<noteq> k \<longrightarrow>
         obj_get (anilistUsers (fst (unlink True k st))) k' = obj_get (anilistUsers st) k') \<and>
      (\<forall>n. n \<noteq> name anilistUser \<longrightarrow>
         lastActivityId (fst (unlink True k st)) n = lastActivityId st n) \<and>
      writes (fst (unlink True k st)) = writes st @ [anilistUsers (fst (unlink True k st))] \<and>
      disk (fst (unlink True k st)) =
        Parsed (map stored_form (anilistUsers (fst (unlink True k st)))) \<and>
      unlink write_ok k (fst (unlink True k st)) = (fst (unlink True k st), NotLinked))
   \<and> (obj_get (anilistUsers st) k = None \<longrightarrow> unlink write_ok k st = (st, NotLinked))"
proof (intro conjI impI)
  assume n: "obj_get (anilistUsers st) k = None"
  then show "unlink write_ok k st = (st, NotLinked)" by (simp add: unlink_def)
next
  assume h: "obj_get (anilistUsers st) k = Some anilistUser"
  let ?st' = "fst (unlink True k st)"
  from h have eq: "unlink True k st =
      (st\<lparr>lastActivityId := (lastActivityId st)(name anilistUser := None),
          anilistUsers := obj_delete k (anilistUsers st),
          disk := Parsed (map stored_form (obj_delete k (anilistUsers st))),
          writes := writes st @ [obj_delete k (anilistUsers st)]\<rparr>,
       Unlinked (name anilistUser))"
    by (simp add: unlink_def saveUsers_ok Let_def)
  show "snd (unlink True k st) = Unlinked (name anilistUser)" by (simp add: eq)
  show gone: "obj_get (anilistUsers ?st') k = None" by (simp add: eq obj_get_delete)
  show "lastActivityId ?st' (name anilistUser) = None" by (simp add: eq)
  show "\<forall>k'. k' \<noteq> k \<longrightarrow> obj_get (anilistUsers ?st') k' = obj_get (anilistUsers st) k'"
    by (simp add: eq obj_get_delete)
  show "\<forall>n. n \<noteq> name anilistUser \<longrightarrow> lastActivityId ?st' n = lastActivityId st n"
    by (simp add: eq)
  show "writes ?st' = writes st @ [anilistUsers ?st']" by (simp add: eq)
  show "disk ?st' = Parsed (map stored_form (anilistUsers ?st'))" by (simp add: eq)
  from gone show "unlink write_ok k ?st' = (?st', NotLinked)" by (simp add: unlink_def)
qed

theorem unlink_removes_link_and_ledger_entry_witness:
  "unlink True ''111111111111111111'' (two_users\<lparr>lastActivityId := [''Alice'' \<mapsto> 5, ''Bob'' \<mapsto> 6]\<rparr>) =
     (\<lparr>anilistUsers = [(''222222222222222222'', \<lparr>uid = 43, name = ''Bob''\<rparr>)],
       lastActivityId = [''Bob'' \<mapsto> 6],
       disk = Parsed [(''222222222222222222'', Structured (Some 43) (Some ''Bob''))],
       writes = [[(''222222222222222222'', \<lparr>uid = 43, name = ''Bob''\<rparr>)]]\<rparr>,
      Unlinked ''Alice'')
   \<and> snd (unlink True ''111111111111111111''
        (fst (unlink True ''111111111111111111''
           (two_users\<lparr>lastActivityId := [''Alice'' \<mapsto> 5, ''Bob'' \<mapsto> 6]\<rparr>)))) = NotLinked
   \<and> unlink True ''333333333333333333'' two_users = (two_users, NotLinked)"
proof -
  let ?st = "two_users\<lparr>lastActivityId := [''Alice'' \<mapsto> 5, ''Bob'' \<mapsto> 6]\<rparr>"
  have g: "obj_get (anilistUsers ?st) ''111111111111111111'' = Some \<lparr>uid = 42, name = ''Alice''\<rparr>"
    "obj_get (anilistUsers two_users) ''333333333333333333'' = None"
    by (simp_all add: two_users_def obj_get_def)
  have e: "unlink True ''111111111111111111'' ?st =
     (\<lparr>anilistUsers = [(''222222222222222222'', \<lparr>uid = 43, name = ''Bob''\<rparr>)],
       lastActivityId = [''Bob'' \<mapsto> 6],
       disk = Parsed [(''222222222222222222'', Structured (Some 43) (Some ''Bob''))],
       writes = [[(''222222222222222222'', \<lparr>uid = 43, name = ''Bob''\<rparr>)]]\<rparr>,
      Unlinked ''Alice'')"
    by (auto simp: unlink_def two_users_def obj_get_def obj_delete_def saveUsers_def stored_form_def
        Let_def fun_upd_def)
  have 1: "unlink True ''111111111111111111'' (fst (unlink True ''111111111111111111'' ?st)) =
      (fst (unlink True ''111111111111111111'' ?st), NotLinked)"
    using unlink_removes_link_and_ledger_entry [where st = ?st and k = "''111111111111111111''"
        and anilistUser = "\<lparr>uid = 42, name = ''Alice''\<rparr>" and write_ok = True] g(1)
    by blast
  have 2: "unlink True ''333333333333333333'' two_users = (two_users, NotLinked)"
    using unlink_removes_link_and_ledger_entry [where st = two_users and k = "''333333333333333333''"
        and write_ok = True] g(2)
    by blast
  from e 1 2 show ?thesis by simp
qed

text \<open>
  C6. An account that is already linked (the keys of the store distinct) asks to link a
  name that passes the collision check and that the service resolves, the write to disk
  going through: the reply is the success one, the store's entry for the account is
  exactly the resolved \<open>{id, name}\<close> and it is the only entry under that key, the keys
  and the other accounts' entries are unchanged, and the store is written.
\<close>

theorem relink_replaces_link:
  assumes "distinct (map fst (anilistUsers st))" and "obj_get (anilistUsers st) k = Some old"
    and "length parts = 3" and "existingUser st k (parts ! 2) = None"
    and "resolve (parts ! 2) = Resolved userData"
  shows "snd (link resolve True k parts st) = Linked (name userData) (uid userData) \<and>
         obj_get (anilistUsers (fst (link resolve True k parts st))) k =
           Some \<lparr>uid = uid userData, name = name userData\<rparr> \<and>
         filter (\<lambda>p. fst p = k) (anilistUsers (fst (link resolve True k parts st))) =
           [(k, \<lparr>uid = uid userData, name = name userData\<rparr>)] \<and>
         map fst (anilistUsers (fst (link resolve True k parts st))) = map fst (anilistUsers st) \<and>
         (\<forall>k'. k' \<noteq> k \<longrightarrow>
            obj_get (anilistUsers (fst (link resolve True k parts st))) k' =
              obj_get (anilistUsers st) k') \<and>
         writes (fst (link resolve True k parts st)) =
           writes st @ [anilistUsers (fst (link resolve True k parts st))] \<and>
         disk (fst (link resolve True k parts st)) =
           Parsed (map stored_form (anilistUsers (fst (link resolve True k parts st))))"
proof -
  let ?new = "\<lparr>uid = uid userData, name = name userData\<rparr>"
  let ?users = "obj_set k ?new (anilistUsers st)"
  have eq: "link resolve True k parts st =
      (st\<lparr>anilistUsers := ?users, disk := Parsed (map stored_form ?users),
          writes := writes st @ [?users]\<rparr>,
       Linked (name userData) (uid userData))"
    using assms(3-5) by (simp add: link_def saveUsers_ok Let_def)
  have present: "map fst ?users = map fst (anilistUsers st) \<and>
      filter (\<lambda>p. fst p = k) ?users = [(k, ?new)]"
    using obj_set_present [OF assms(1) assms(2)] by simp
  show ?thesis using present by (simp add: eq obj_get_set)
qed

theorem relink_replaces_link_witness:
  "link knows_carol True ''222222222222222222'' [''!anilist'', ''link'', ''carol''] two_users =
     (\<lparr>anilistUsers = [(''111111111111111111'', \<lparr>uid = 42, name = ''Alice''\<rparr>),
                       (''222222222222222222'', \<lparr>uid = 99, name = ''Carol''\<rparr>)],
       lastActivityId = Map.empty,
       disk = Parsed [(''111111111111111111'', Structured (Some 42) (Some ''Alice'')),
                      (''222222222222222222'', Structured (Some 99) (Some ''Carol''))],
       writes = [[(''111111111111111111'', \<lparr>uid = 42, name = ''Alice''\<rparr>),
                  (''222222222222222222'', \<lparr>uid = 99, name = ''Carol''\<rparr>)]]\<rparr>,
      Linked ''Carol'' 99)
   \<and> filter (\<lambda>p. fst p = ''222222222222222222'')
        (anilistUsers (fst (link knows_carol True ''222222222222222222''
           [''!anilist'', ''link'', ''carol''] two_users))) =
       [(''222222222222222222'', \<lparr>uid = 99, name = ''Carol''\<rparr>)]"
proof -
  let ?parts = "[''!anilist'', ''link'', ''carol'']"
  have d: "distinct (map fst (anilistUsers two_users))" by (simp add: two_users_def)
  have g: "obj_get (anilistUsers two_users) ''222222222222222222'' = Some \<lparr>uid = 43, name = ''Bob''\<rparr>"
    by (simp add: two_users_def obj_get_def)
  have l: "length ?parts = 3" by simp
  have c: "existingUser two_users ''222222222222222222'' (?parts ! 2) = None"
    by (simp add: existingUser_def own_name_def two_users_def obj_values_def obj_get_def
        toLowerCase_def lower_char_def)
  have r: "knows_carol (?parts ! 2) = Resolved \<lparr>uid = 99, name = ''Carol''\<rparr>"
    by (simp add: knows_carol_def toLowerCase_def lower_char_def)
  have e: "link knows_carol True ''222222222222222222'' ?parts two_users =
     (\<lparr>anilistUsers = [(''111111111111111111'', \<lparr>uid = 42, name = ''Alice''\<rparr>),
                       (''222222222222222222'', \<lparr>uid = 99, name = ''Carol''\<rparr>)],
       lastActivityId = Map.empty,
       disk = Parsed [(''111111111111111111'', Structured (Some 42) (Some ''Alice'')),
                      (''222222222222222222'', Structured (Some 99) (Some ''Carol''))],
       writes = [[(''111111111111111111'', \<lparr>uid = 42, name = ''Alice''\<rparr>),
                  (''222222222222222222'', \<lparr>uid = 99, name = ''Carol''\<rparr>)]]\<rparr>,
      Linked ''Carol'' 99)"
    using c r by (simp add: link_def saveUsers_def stored_form_def two_users_def Let_def)
  have "filter (\<lambda>p. fst p = ''222222222222222222'')
        (anilistUsers (fst (link knows_carol True ''222222222222222222'' ?parts two_users))) =
       [(''222222222222222222'', \<lparr>uid = uid \<lparr>uid = 99, name = ''Carol''\<rparr>,
                                  name = name \<lparr>uid = 99, name = ''Carol''\<rparr>\<rparr>)]"
    using relink_replaces_link [where st = two_users and k = "''222222222222222222''"
        and old = "\<lparr>uid = 43, name = ''Bob''\<rparr>" and parts = ?parts and resolve = knows_carol
        and userData = "\<lparr>uid = 99, name = ''Carol''\<rparr>"] d g l c r
    by blast
  with e show ?thesis by simp
qed

section \<open>Properties of the leaderboard\<close>

lemma response_user_simps:
  "response_user StatsFailed = None" "response_user (StatsUser d) = d"
  by (simp_all add: response_user_def)

lemma has_statistics_simps:
  "has_statistics None = False" "has_statistics (Some u) = (su_statistics u \<noteq> None)"
  by (simp_all add: has_statistics_def)



text \<open>For a user with statistics that cannot be rendered, the callback throws.\<close>

lemma to_stat_incomplete:
  assumes "su_statistics u = Some s" and "\<not> complete_for kind u"
  shows "to_stat kind (Some u) = Inl TypeError"
  using assms by (cases kind) (auto simp: to_stat_def complete_for_def split: option.splits)


lemma map_stats_throws:
  "d \<in> set ds \<Longrightarrow> to_stat kind d = Inl TypeError \<Longrightarrow> map_stats kind ds = Inl TypeError"
proof (induction ds)
  case Nil
  then show ?case by simp
next
  case (Cons x xs)
  show ?case
  proof (cases "to_stat kind x")
    case (Inl e)
    then show ?thesis by (cases e) simp
  next
    case (Inr s)
    with Cons.prems have "d \<in> set xs" by auto
    with Cons have "map_stats kind xs = Inl TypeError" by simp
    with Inr show ?thesis by simp
  qed
qed

text \<open>
  One user with statistics but without the statistics of the requested kind, or without
  avatar, makes the whole construction throw.
\<close>

lemma validStats_throws:
  assumes "StatsUser (Some u) \<in> set responses" and "su_statistics u = Some s"
    and "\<not> complete_for kind u"
  shows "validStats kind responses = Inl TypeError"
proof -
  have "Some u \<in> set (map response_user responses)"
    using assms(1) image_eqI [of "Some u" response_user "StatsUser (Some u)" "set responses"]
    by (simp add: response_user_simps)
  with assms(2) have "Some u \<in> set (filter has_statistics (map response_user responses))"
    by (simp add: has_statistics_simps)
  then have "unsorted kind responses = Inl TypeError"
    unfolding unsorted_def
    by (rule map_stats_throws) (rule to_stat_incomplete [OF assms(2) assms(3)])
  then show ?thesis by (simp add: validStats_def)
qed







text \<open>The same two rankings, computed by the code alone.\<close>

lemma validStats_samples:
  "map_sum id (map (\<lambda>e. (stat_name e, count e, episodesOrChapters e)))
     (validStats AnimeKind sample_responses) =
     Inr [(''B'', 25, 300), (''C'', 25, 300), (''A'', 10, 120)]"
  "map_sum id (map (\<lambda>e. (stat_name e, count e, episodesOrChapters e)))
     (validStats MangaKind sample_responses) =
     Inr [(''A'', 30, 3000), (''B'', 5, 500), (''C'', 5, 500)]"
  by (simp_all add: validStats_def unsorted_def sample_responses_def sample_response_def
      response_user_simps has_statistics_simps to_stat_def sort_by_def by_count_desc_def)

end
